theory Spec2Isabelle
  imports Main "HOL-Library.Finite_Map" "HOL-Library.Char_ord" "HOL-Library.List_Lexorder"
    "HOL-Library.Multiset"
begin

section \<open>The registry of networks and endpoints (network.go)\<close>

text \<open>
  The Go code works on objects reached through pointers: a controller owns a table of
  pointers to networks, a network points back to its controller and owns a table of
  pointers to endpoints, an endpoint points back to its network. The model keeps one heap
  per kind of object. A heap is a list, a pointer is an index into it, allocation appends
  (so a new pointer is never one already in use), and nothing is ever freed. Following a
  pointer that is not in the heap is Go's nil dereference: the operation panics.

  The model is sequential: one call runs to its end before the next one starts, so the
  mutexes of the source have no effect and are left out.
\<close>

type_synonym UUID = string
type_synonym cref = nat
type_synonym nref = nat
type_synonym eref = nat
type_synonym iref = nat
type_synonym dref = nat
type_synonym options = "(string \<times> string) list"
type_synonym driver_error = string
type_synonym Info = string
type_synonym map_order = "UUID \<Rightarrow> nat"

text \<open>
  The error values of the package. Their declarations are in another file of the
  repository; network.go only builds them, a new value at each return. An error handed
  back by a driver is the driver's own value; the registry does not look into it and
  passes it through unchanged: \<open>DriverError\<close> carries it, apart from the errors that the
  registry builds itself.
\<close>

datatype error =
    ErrInvalidNetworkDriver
  | NetworkTypeError string
  | NetworkNameError string
  | UnknownNetworkError string string
  | ActiveEndpointsError string string
  | UnknownEndpointError string string
  | DriverError driver_error

text \<open>What a call hands back to its caller: a value, or a panic that unwinds it.\<close>

datatype 'a outcome = Return 'a | Panic

text \<open>The methods of \<open>driverapi.Driver\<close> that network.go calls, with their arguments.\<close>

datatype driver_call =
    CreateNetworkCall UUID options
  | DeleteNetworkCall UUID
  | CreateEndpointCall UUID UUID string options
  | DeleteEndpointCall UUID UUID

text \<open>
  The structs. Field \<open>name\<close> and \<open>id\<close> of the source are \<open>n_name\<close>, \<open>n_id\<close> in a network
  and \<open>ep_name\<close>, \<open>ep_id\<close> in an endpoint. A \<open>driverapi.Driver\<close> is an interface value:
  \<open>None\<close> is the nil interface. \<open>sandboxInfo\<close> is a pointer that may be nil.
\<close>

record controller =
  networks :: "(UUID, nref) fmap"
  drivers :: "(string, dref option) fmap"

record network =
  ctrlr :: cref
  n_name :: string
  networkType :: string
  n_id :: UUID
  driver :: "dref option"
  endpoints :: "(UUID, eref) fmap"

record endpoint =
  ep_name :: string
  ep_id :: UUID
  network :: nref
  sandboxInfo :: "iref option"

text \<open>
  The state: the four heaps, the driver calls made so far (oldest first) and the number
  of identifiers drawn from the generator so far.
\<close>

record state =
  ctrls :: "controller list"
  nets :: "network list"
  eps :: "endpoint list"
  infos :: "Info list"
  calls :: "(dref \<times> driver_call) list"
  ids_drawn :: nat

text \<open>
  The collaborators that network.go uses and does not define. \<open>GenerateRandomID k\<close> is the
  identifier that the \<open>k\<close>-th call of \<open>stringid.GenerateRandomID\<close> returns.
  \<open>enumerateDrivers\<close> is the driver table a new controller starts with. A driver answers
  a call from the state it is called in (which holds every earlier call): \<open>drv_error\<close> is
  the error it returns, \<open>None\<close> for nil, and \<open>drv_sinfo\<close> is the \<open>*sandbox.Info\<close> that
  \<open>CreateEndpoint\<close> returns. A driver does not change the registry.
\<close>

record env =
  GenerateRandomID :: "nat \<Rightarrow> string"
  enumerateDrivers :: "(string, dref option) fmap"
  drv_error :: "dref \<Rightarrow> driver_call \<Rightarrow> state \<Rightarrow> driver_error option"
  drv_sinfo :: "dref \<Rightarrow> driver_call \<Rightarrow> state \<Rightarrow> iref option"

subsection \<open>Heaps and tables\<close>

definition deref :: "'a list \<Rightarrow> nat \<Rightarrow> 'a option" where
  "deref h r = (if r < length h then Some (h ! r) else None)"

text \<open>
  \<open>range_tbl\<close> is \<open>for _, v := range m\<close>: the values of a Go map, each entry once. Go leaves
  the order open and picks one anew at each \<open>range\<close>. The order of one \<open>range\<close> is therefore
  an argument of every operation that has such a loop: a rank for the keys, and the loop
  goes through the keys by rising rank (keys of the same rank by key). A rank decides
  nothing but the order, and every order of the keys is the order of some rank
  (\<open>range_tbl_any_order\<close> below).
\<close>

definition range_tbl :: "map_order \<Rightarrow> (UUID, 'v) fmap \<Rightarrow> 'v list" where
  "range_tbl rank m =
     List.map_filter (fmlookup m) (sort_key rank (sorted_list_of_fset (fmdom m)))"

definition len_tbl :: "(UUID, 'v) fmap \<Rightarrow> nat" where
  "len_tbl m = fcard (fmdom m)"

definition set_networks :: "cref \<Rightarrow> (UUID, nref) fmap \<Rightarrow> state \<Rightarrow> state" where
  "set_networks c tbl s = s\<lparr>ctrls := (ctrls s)[c := (ctrls s ! c)\<lparr>networks := tbl\<rparr>]\<rparr>"

definition set_endpoints :: "nref \<Rightarrow> (UUID, eref) fmap \<Rightarrow> state \<Rightarrow> state" where
  "set_endpoints n tbl s = s\<lparr>nets := (nets s)[n := (nets s ! n)\<lparr>endpoints := tbl\<rparr>]\<rparr>"

definition log_call :: "dref \<Rightarrow> driver_call \<Rightarrow> state \<Rightarrow> state" where
  "log_call d call s = s\<lparr>calls := calls s @ [(d, call)]\<rparr>"

subsection \<open>Controller\<close>

definition New :: "env \<Rightarrow> state \<Rightarrow> cref \<times> state" where
  "New e s =
     (length (ctrls s),
      s\<lparr>ctrls := ctrls s @ [\<lparr>networks = fmempty, drivers = enumerateDrivers e\<rparr>]\<rparr>)"

text \<open>The scan of \<open>NewNetwork\<close> for a network that already has the name.\<close>

fun name_taken :: "network list \<Rightarrow> string \<Rightarrow> nref list \<Rightarrow> bool outcome" where
  "name_taken h nm [] = Return False"
| "name_taken h nm (r # rs) =
     (case deref h r of
        None \<Rightarrow> Panic
      | Some N \<Rightarrow> if n_name N = nm then Return True else name_taken h nm rs)"

text \<open>\<open>network := &network{...}\<close>: the new object is allocated and its identifier drawn.\<close>

definition construct_network :: "env \<Rightarrow> cref \<Rightarrow> string \<Rightarrow> dref option \<Rightarrow> state \<Rightarrow> state" where
  "construct_network e c nm d s =
     s\<lparr>nets := nets s @
          [\<lparr>ctrlr = c, n_name = nm, networkType = [],
            n_id = GenerateRandomID e (ids_drawn s), driver = d, endpoints = fmempty\<rparr>],
       ids_drawn := Suc (ids_drawn s)\<rparr>"

definition NewNetwork ::
  "env \<Rightarrow> map_order \<Rightarrow> cref \<Rightarrow> string \<Rightarrow> string \<Rightarrow> options \<Rightarrow> state
     \<Rightarrow> (error + nref) outcome \<times> state" where
  "NewNetwork e rank c ntype nm opts s =
     (case deref (ctrls s) c of
        None \<Rightarrow> (Panic, s)
      | Some C \<Rightarrow>
          (case fmlookup (drivers C) ntype of
             None \<Rightarrow> (Return (Inl ErrInvalidNetworkDriver), s)
           | Some d \<Rightarrow>
               (case name_taken (nets s) nm (range_tbl rank (networks C)) of
                  Panic \<Rightarrow> (Panic, s)
                | Return True \<Rightarrow> (Return (Inl (NetworkNameError nm)), s)
                | Return False \<Rightarrow>
                    (let n = length (nets s);
                         nid = GenerateRandomID e (ids_drawn s);
                         s1 = construct_network e c nm d s
                     in case d of
                          None \<Rightarrow> (Panic, s1)
                        | Some dr \<Rightarrow>
                            (case drv_error e dr (CreateNetworkCall nid opts) s1 of
                               Some err \<Rightarrow>
                                 (Return (Inl (DriverError err)),
                                  log_call dr (CreateNetworkCall nid opts) s1)
                             | None \<Rightarrow>
                                 (let s2 = log_call dr (CreateNetworkCall nid opts) s1
                                  in (Return (Inr n),
                                      set_networks c
                                        (fmupd nid n (networks (ctrls s2 ! c))) s2)))))))"

definition Networks :: "map_order \<Rightarrow> cref \<Rightarrow> state \<Rightarrow> nref list outcome" where
  "Networks rank c s =
     (case deref (ctrls s) c of
        None \<Rightarrow> Panic
      | Some C \<Rightarrow> Return (range_tbl rank (networks C)))"

text \<open>
  A walker is a closure: it returns its verdict and may change what it has captured, the
  \<open>'w\<close> here (which may be the whole state, for a walker that calls back into the
  registry). The walk goes through a snapshot taken before the first call.
\<close>

fun walk :: "('a \<Rightarrow> 'w \<Rightarrow> bool \<times> 'w) \<Rightarrow> 'a list \<Rightarrow> 'w \<Rightarrow> bool \<times> 'w" where
  "walk walker [] w = (False, w)"
| "walk walker (x # xs) w =
     (case walker x w of
        (True, w') \<Rightarrow> (True, w')
      | (False, w') \<Rightarrow> walk walker xs w')"

definition WalkNetworks ::
  "map_order \<Rightarrow> cref \<Rightarrow> (nref \<Rightarrow> 'w \<Rightarrow> bool \<times> 'w) \<Rightarrow> state \<Rightarrow> 'w
     \<Rightarrow> (bool \<times> 'w) outcome" where
  "WalkNetworks rank c walker s w =
     (case Networks rank c s of
        Panic \<Rightarrow> Panic
      | Return ns \<Rightarrow> Return (walk walker ns w))"

definition NetworkByID :: "cref \<Rightarrow> string \<Rightarrow> state \<Rightarrow> nref option outcome" where
  "NetworkByID c i s =
     (case deref (ctrls s) c of
        None \<Rightarrow> Panic
      | Some C \<Rightarrow> Return (fmlookup (networks C) i))"

subsection \<open>Network\<close>

definition Name :: "nref \<Rightarrow> state \<Rightarrow> string outcome" where
  "Name n s = (case deref (nets s) n of None \<Rightarrow> Panic | Some N \<Rightarrow> Return (n_name N))"

definition ID :: "nref \<Rightarrow> state \<Rightarrow> string outcome" where
  "ID n s = (case deref (nets s) n of None \<Rightarrow> Panic | Some N \<Rightarrow> Return (n_id N))"

text \<open>
  \<open>(*network).Delete\<close>. The deferred function puts the network back when \<open>err\<close> is not
  nil; when the driver is the nil interface the call panics with \<open>err\<close> still nil.
\<close>

definition Network_Delete :: "env \<Rightarrow> nref \<Rightarrow> state \<Rightarrow> error option outcome \<times> state" where
  "Network_Delete e n s =
     (case deref (nets s) n of
        None \<Rightarrow> (Panic, s)
      | Some N \<Rightarrow>
          (case deref (ctrls s) (ctrlr N) of
             None \<Rightarrow> (Panic, s)
           | Some C \<Rightarrow>
               (case fmlookup (networks C) (n_id N) of
                  None \<Rightarrow> (Return (Some (UnknownNetworkError (n_name N) (n_id N))), s)
                | Some _ \<Rightarrow>
                    if len_tbl (endpoints N) \<noteq> 0
                    then (Return (Some (ActiveEndpointsError (n_name N) (n_id N))), s)
                    else
                      (let s1 = set_networks (ctrlr N) (fmdrop (n_id N) (networks C)) s
                       in case driver N of
                            None \<Rightarrow> (Panic, s1)
                          | Some d \<Rightarrow>
                              (let s2 = log_call d (DeleteNetworkCall (n_id N)) s1
                               in case drv_error e d (DeleteNetworkCall (n_id N)) s1 of
                                    None \<Rightarrow> (Return None, s2)
                                  | Some err \<Rightarrow>
                                      (Return (Some (DriverError err)),
                                       set_networks (ctrlr N)
                                         (fmupd (n_id N) n
                                            (networks (ctrls s2 ! ctrlr N))) s2))))))"

definition CreateEndpoint ::
  "env \<Rightarrow> nref \<Rightarrow> string \<Rightarrow> string \<Rightarrow> options \<Rightarrow> state \<Rightarrow> (error + eref) outcome \<times> state" where
  "CreateEndpoint e n nm sboxKey opts s =
     (let ep = length (eps s);
          eid = GenerateRandomID e (ids_drawn s);
          s1 = s\<lparr>eps := eps s @
                   [\<lparr>ep_name = nm, ep_id = eid, network = n, sandboxInfo = None\<rparr>],
                 ids_drawn := Suc (ids_drawn s)\<rparr>
      in case deref (nets s1) n of
           None \<Rightarrow> (Panic, s1)
         | Some N \<Rightarrow>
             (case driver N of
                None \<Rightarrow> (Panic, s1)
              | Some d \<Rightarrow>
                  (let call = CreateEndpointCall (n_id N) eid sboxKey opts;
                       s2 = log_call d call s1
                   in case drv_error e d call s1 of
                        Some err \<Rightarrow> (Return (Inl (DriverError err)), s2)
                      | None \<Rightarrow>
                          (let s3 = s2\<lparr>eps := (eps s2)
                                       [ep := (eps s2 ! ep)
                                          \<lparr>sandboxInfo := drv_sinfo e d call s1\<rparr>]\<rparr>
                           in (Return (Inr ep),
                               set_endpoints n
                                 (fmupd eid ep (endpoints (nets s3 ! n))) s3)))))"

definition Endpoints :: "map_order \<Rightarrow> nref \<Rightarrow> state \<Rightarrow> eref list outcome" where
  "Endpoints rank n s =
     (case deref (nets s) n of
        None \<Rightarrow> Panic
      | Some N \<Rightarrow> Return (range_tbl rank (endpoints N)))"

text \<open>
  \<open>WalkEndpoints\<close> has no result in the source: it hands back nothing, here \<open>()\<close>, next to
  what the walker has captured.
\<close>

fun walk_void :: "('a \<Rightarrow> 'w \<Rightarrow> bool \<times> 'w) \<Rightarrow> 'a list \<Rightarrow> 'w \<Rightarrow> unit \<times> 'w" where
  "walk_void walker [] w = ((), w)"
| "walk_void walker (x # xs) w =
     (case walker x w of
        (True, w') \<Rightarrow> ((), w')
      | (False, w') \<Rightarrow> walk_void walker xs w')"

definition WalkEndpoints ::
  "map_order \<Rightarrow> nref \<Rightarrow> (eref \<Rightarrow> 'w \<Rightarrow> bool \<times> 'w) \<Rightarrow> state \<Rightarrow> 'w
     \<Rightarrow> (unit \<times> 'w) outcome" where
  "WalkEndpoints rank n walker s w =
     (case Endpoints rank n s of
        Panic \<Rightarrow> Panic
      | Return es \<Rightarrow> Return (walk_void walker es w))"

definition EndpointByID :: "nref \<Rightarrow> string \<Rightarrow> state \<Rightarrow> eref option outcome" where
  "EndpointByID n i s =
     (case deref (nets s) n of
        None \<Rightarrow> Panic
      | Some N \<Rightarrow> Return (fmlookup (endpoints N) i))"

subsection \<open>Endpoint\<close>

text \<open>
  Modelled from the spec: \<open>(*sandbox.Info).GetCopy\<close> is in package sandbox of this
  repository, which is not among the sources. The spec calls it a deep copy of the
  snapshot: a new object with the same content that shares nothing with the original.
  The content of an \<open>Info\<close> is a plain value here, so a copy at a new address is deep.
\<close>

definition GetCopy :: "iref \<Rightarrow> state \<Rightarrow> iref outcome \<times> state" where
  "GetCopy r s =
     (case deref (infos s) r of
        None \<Rightarrow> (Panic, s)
      | Some v \<Rightarrow> (Return (length (infos s)), s\<lparr>infos := infos s @ [v]\<rparr>))"

definition SandboxInfo :: "eref \<Rightarrow> state \<Rightarrow> iref option outcome \<times> state" where
  "SandboxInfo ep s =
     (case deref (eps s) ep of
        None \<Rightarrow> (Panic, s)
      | Some E \<Rightarrow>
          (case sandboxInfo E of
             None \<Rightarrow> (Return None, s)
           | Some r \<Rightarrow>
               (case GetCopy r s of
                  (Panic, s') \<Rightarrow> (Panic, s')
                | (Return r', s') \<Rightarrow> (Return (Some r'), s'))))"

text \<open>A caller writing through a pointer to an \<open>Info\<close>.\<close>

definition write_info :: "iref \<Rightarrow> Info \<Rightarrow> state \<Rightarrow> state" where
  "write_info r v s = s\<lparr>infos := (infos s)[r := v]\<rparr>"

definition Endpoint_Delete :: "env \<Rightarrow> eref \<Rightarrow> state \<Rightarrow> error option outcome \<times> state" where
  "Endpoint_Delete e ep s =
     (case deref (eps s) ep of
        None \<Rightarrow> (Panic, s)
      | Some E \<Rightarrow>
          (let n = network E
           in case deref (nets s) n of
                None \<Rightarrow> (Panic, s)
              | Some N \<Rightarrow>
                  (case fmlookup (endpoints N) (ep_id E) of
                     None \<Rightarrow> (Return (Some (UnknownEndpointError (ep_name E) (ep_id E))), s)
                   | Some _ \<Rightarrow>
                       (let s1 = set_endpoints n (fmdrop (ep_id E) (endpoints N)) s
                        in case driver N of
                             None \<Rightarrow> (Panic, s1)
                           | Some d \<Rightarrow>
                               (let call = DeleteEndpointCall (n_id N) (ep_id E);
                                    s2 = log_call d call s1
                                in case drv_error e d call s1 of
                                     None \<Rightarrow> (Return None, s2)
                                   | Some err \<Rightarrow>
                                       (Return (Some (DriverError err)),
                                        set_endpoints n
                                          (fmupd (ep_id E) ep
                                             (endpoints (nets s2 ! n))) s2))))))"

subsection \<open>Well-formed tables\<close>

text \<open>
  A controller's table is in order when the controller exists, every entry points to a
  network that exists, and entries under different keys point to networks with different
  names. A network's endpoint table is in order when the network exists and every entry
  points to an endpoint that exists, has the entry's key as its id and belongs to this
  network.
\<close>

definition registry_ok :: "cref \<Rightarrow> state \<Rightarrow> bool" where
  "registry_ok c s \<longleftrightarrow>
     c < length (ctrls s)
     \<and> (\<forall>k r. fmlookup (networks (ctrls s ! c)) k = Some r \<longrightarrow> r < length (nets s))
     \<and> (\<forall>k1 k2 r1 r2. k1 \<noteq> k2 \<and> fmlookup (networks (ctrls s ! c)) k1 = Some r1
            \<and> fmlookup (networks (ctrls s ! c)) k2 = Some r2
          \<longrightarrow> n_name (nets s ! r1) \<noteq> n_name (nets s ! r2))"

definition table_ok :: "nref \<Rightarrow> state \<Rightarrow> bool" where
  "table_ok n s \<longleftrightarrow>
     n < length (nets s)
     \<and> list_all (\<lambda>k. case fmlookup (endpoints (nets s ! n)) k of
                       None \<Rightarrow> True
                     | Some r \<Rightarrow> r < length (eps s) \<and> ep_id (eps s ! r) = k
                                 \<and> network (eps s ! r) = n)
          (sorted_list_of_fset (fmdom (endpoints (nets s ! n))))"

subsection \<open>Client scenarios and example states\<close>

text \<open>Two orders of a \<open>range\<close>: by key, and the key \<open>aaa\<close> before the others.\<close>

definition key_order :: map_order where
  "key_order k = 0"

definition last_key_first :: map_order where
  "last_key_first k = (if k = ''aaa'' then 0 else 1)"

text \<open>
  Two sets of collaborators: one whose drivers always succeed and one whose drivers
  always fail. Both draw the identifiers \<open>a\<close>, \<open>aa\<close>, \<open>aaa\<close>, ... and start a controller
  with one driver, registered for the type \<open>bridge\<close>.
\<close>

definition env_ok :: env where
  "env_ok = \<lparr>GenerateRandomID = (\<lambda>k. replicate (Suc k) CHR ''a''),
             enumerateDrivers = fmupd ''bridge'' (Some 0) fmempty,
             drv_error = (\<lambda>d call s. None),
             drv_sinfo = (\<lambda>d call s. None)\<rparr>"

definition env_busy :: env where
  "env_busy = \<lparr>GenerateRandomID = (\<lambda>k. replicate (Suc k) CHR ''a''),
               enumerateDrivers = fmupd ''bridge'' (Some 0) fmempty,
               drv_error = (\<lambda>d call s. Some ''busy''),
               drv_sinfo = (\<lambda>d call s. None)\<rparr>"

text \<open>Nothing allocated yet; then one controller; then one network \<open>net1\<close> on it.\<close>

definition st_init :: state where
  "st_init = \<lparr>ctrls = [], nets = [], eps = [], infos = [], calls = [], ids_drawn = 0\<rparr>"

definition st_ctrl :: state where
  "st_ctrl = \<lparr>ctrls = [\<lparr>networks = fmempty,
                        drivers = fmupd ''bridge'' (Some 0) fmempty\<rparr>],
              nets = [], eps = [], infos = [], calls = [], ids_drawn = 0\<rparr>"

definition st_one :: state where
  "st_one = \<lparr>ctrls = [\<lparr>networks = fmupd ''a'' 0 fmempty,
                       drivers = fmupd ''bridge'' (Some 0) fmempty\<rparr>],
             nets = [\<lparr>ctrlr = 0, n_name = ''net1'', networkType = [], n_id = ''a'',
                      driver = Some 0, endpoints = fmempty\<rparr>],
             eps = [], infos = [],
             calls = [(0, CreateNetworkCall ''a'' [])],
             ids_drawn = 1\<rparr>"

text \<open>The network \<open>net1\<close> with one endpoint \<open>ep1\<close> that has a sandbox-info snapshot.\<close>

definition st_ep :: state where
  "st_ep = \<lparr>ctrls = [\<lparr>networks = fmupd ''a'' 0 fmempty,
                      drivers = fmupd ''bridge'' (Some 0) fmempty\<rparr>],
            nets = [\<lparr>ctrlr = 0, n_name = ''net1'', networkType = [], n_id = ''a'',
                     driver = Some 0, endpoints = fmupd ''aa'' 0 fmempty\<rparr>],
            eps = [\<lparr>ep_name = ''ep1'', ep_id = ''aa'', network = 0, sandboxInfo = Some 0\<rparr>],
            infos = [''eth0 10.0.0.2/24''],
            calls = [(0, CreateNetworkCall ''a'' []),
                     (0, CreateEndpointCall ''a'' ''aa'' ''/ns/path'' [])],
            ids_drawn = 2\<rparr>"

text \<open>
  Sequences of calls by a client: \<open>NewNetwork\<close> on one controller (each call with the
  order of its own scan) and \<open>CreateEndpoint\<close> on one network, each call on the state the
  one before has left (whatever it returned), and
  \<open>Delete\<close> on a list of endpoints, which says whether every call returned nil.
\<close>

fun run_NewNetworks ::
  "env \<Rightarrow> cref \<Rightarrow> (map_order \<times> string \<times> string \<times> options) list \<Rightarrow> state \<Rightarrow> state" where
  "run_NewNetworks e c [] s = s"
| "run_NewNetworks e c ((rank, ntype, nm, opts) # rest) s =
     run_NewNetworks e c rest (snd (NewNetwork e rank c ntype nm opts s))"

fun run_CreateEndpoints ::
  "env \<Rightarrow> nref \<Rightarrow> (string \<times> string \<times> options) list \<Rightarrow> state \<Rightarrow> state" where
  "run_CreateEndpoints e n [] s = s"
| "run_CreateEndpoints e n ((nm, sboxKey, opts) # rest) s =
     run_CreateEndpoints e n rest (snd (CreateEndpoint e n nm sboxKey opts s))"

fun delete_endpoints :: "env \<Rightarrow> eref list \<Rightarrow> state \<Rightarrow> bool \<times> state" where
  "delete_endpoints e [] s = (True, s)"
| "delete_endpoints e (ep # rest) s =
     (case Endpoint_Delete e ep s of
        (Return None, s') \<Rightarrow> delete_endpoints e rest s'
      | (_, s') \<Rightarrow> (False, s'))"

text \<open>
  What a walker does on a whole list when nobody stops it: the answers it gives one after
  the other, and what it has captured at the end.
\<close>

fun answers :: "('a \<Rightarrow> 'w \<Rightarrow> bool \<times> 'w) \<Rightarrow> 'a list \<Rightarrow> 'w \<Rightarrow> bool list" where
  "answers walker [] w = []"
| "answers walker (x # xs) w = fst (walker x w) # answers walker xs (snd (walker x w))"

fun run_all :: "('a \<Rightarrow> 'w \<Rightarrow> bool \<times> 'w) \<Rightarrow> 'a list \<Rightarrow> 'w \<Rightarrow> 'w" where
  "run_all walker [] w = w"
| "run_all walker (x # xs) w = run_all walker xs (snd (walker x w))"

text \<open>A walker that keeps the list of what it was called on and stops at \<open>stop\<close>.\<close>

definition log_until :: "nat \<Rightarrow> nat \<Rightarrow> nat list \<Rightarrow> bool \<times> nat list" where
  "log_until stop x seen = (x = stop, seen @ [x])"

text \<open>
  A walker whose answer depends on what it has seen: it keeps the same list and stops at
  \<open>0\<close> when it has been called on \<open>2\<close> before.
\<close>

definition zero_after_two :: "nat \<Rightarrow> nat list \<Rightarrow> bool \<times> nat list" where
  "zero_after_two x seen = (x = 0 \<and> 2 \<in> set seen, seen @ [x])"

text \<open>Three networks on one controller; three endpoints on the network \<open>net1\<close>.\<close>

definition st_three :: state where
  "st_three = run_NewNetworks env_ok 0
     [(key_order, ''bridge'', ''net1'', []), (key_order, ''bridge'', ''net2'', []), (key_order, ''bridge'', ''net3'', [])]
     st_ctrl"

definition st_eps :: state where
  "st_eps = run_CreateEndpoints env_ok 0
     [(''ep1'', ''/ns/1'', []), (''ep2'', ''/ns/2'', []), (''ep3'', ''/ns/3'', [])]
     st_one"

section \<open>Properties\<close>

subsection \<open>Heaps, tables and state updates\<close>

lemma deref_Some: "deref h r = Some x \<longleftrightarrow> r < length h \<and> h ! r = x"
  by (auto simp: deref_def)

lemma fmupd_fmdrop_same: "fmlookup m k = Some v \<Longrightarrow> fmupd k v (fmdrop k m) = m"
  by (rule fmap_ext) auto

lemma len_tbl_0: "len_tbl m = 0 \<longleftrightarrow> m = fmempty"
  by (metis fcard_fempty fcard_0_eq fmdom_empty fmrestrict_fset_dom fmrestrict_fset_null
        len_tbl_def)

lemma set_range_tbl: "set (range_tbl rank m) = {v. \<exists>k. fmlookup m k = Some v}"
  by (auto simp: range_tbl_def List.map_filter_def fmdom_notI image_iff intro: fmdomI)
     (metis fmdomI option.sel)

text \<open>
  Every order of the keys of a table is the order that some rank gives, so that a
  statement for every rank is a statement for every order Go may pick.
\<close>

lemma filter_same_rank:
  assumes "distinct xs" and "k \<in> set xs" and "inj_on f (set xs)"
  shows "filter (\<lambda>x. f k = f x) xs = [k]"
proof -
  have "filter (\<lambda>x. f k = f x) xs = filter (\<lambda>x. k = x) xs"
    using assms(2,3) by (intro filter_cong) (auto dest: inj_onD)
  also have "\<dots> = [k]"
    using assms(1,2) by (induction xs) (auto simp: filter_empty_conv)
  finally show ?thesis .
qed

lemma sort_key_any_order:
  fixes ks :: "'a list"
  assumes "distinct ks" and "distinct xs" and "set ks = set xs"
  shows "\<exists>rank :: 'a \<Rightarrow> nat. sort_key rank xs = ks"
proof -
  define rank where "rank = the_inv_into {..<length ks} ((!) ks)"
  have inj: "inj_on ((!) ks) {..<length ks}"
    using assms(1) by (auto simp: inj_on_def nth_eq_iff_index_eq)
  have pos: "rank (ks ! i) = i" if "i < length ks" for i
    unfolding rank_def using that by (simp add: the_inv_into_f_f [OF inj])
  have inj_rank: "inj_on rank (set ks)"
    by (auto simp: inj_on_def in_set_conv_nth pos)
  have "map rank ks = [0..<length ks]"
    by (rule nth_equalityI) (simp_all add: pos)
  then have sorted: "sorted (map rank ks)" by simp
  have m: "mset ks = mset xs"
    using assms by (simp add: set_eq_iff_mset_eq_distinct)
  have "filter (\<lambda>x. rank k = rank x) ks = filter (\<lambda>x. rank k = rank x) xs"
    if "k \<in> set ks" for k
    using that assms inj_rank
    by (simp add: filter_same_rank [of ks k rank] filter_same_rank [of xs k rank])
  from properties_for_sort_key [OF m this sorted] show ?thesis by blast
qed

lemma range_tbl_any_order:
  assumes "distinct ks" and "set ks = fset (fmdom m)"
  shows "\<exists>rank. range_tbl rank m = List.map_filter (fmlookup m) ks"
proof -
  have "distinct (sorted_list_of_fset (fmdom m))"
    by (simp add: sorted_list_of_fset.rep_eq)
  moreover have "set ks = set (sorted_list_of_fset (fmdom m))"
    using assms(2) by simp
  ultimately obtain rank :: map_order
    where "sort_key rank (sorted_list_of_fset (fmdom m)) = ks"
    using sort_key_any_order [OF assms(1)] by blast
  then show ?thesis by (auto simp: range_tbl_def)
qed

lemma Networks_any_order:
  assumes "deref (ctrls s) c = Some C" and "distinct ks" and "set ks = fset (fmdom (networks C))"
  shows "\<exists>rank. Networks rank c s = Return (List.map_filter (fmlookup (networks C)) ks)"
  using range_tbl_any_order [OF assms(2,3)] assms(1) by (auto simp: Networks_def)

lemma Endpoints_any_order:
  assumes "deref (nets s) n = Some N" and "distinct ks" and "set ks = fset (fmdom (endpoints N))"
  shows "\<exists>rank. Endpoints rank n s = Return (List.map_filter (fmlookup (endpoints N)) ks)"
  using range_tbl_any_order [OF assms(2,3)] assms(1) by (auto simp: Endpoints_def)

lemma log_call_simps:
  "ctrls (log_call d call s) = ctrls s" "nets (log_call d call s) = nets s"
  "eps (log_call d call s) = eps s" "infos (log_call d call s) = infos s"
  "calls (log_call d call s) = calls s @ [(d, call)]"
  "ids_drawn (log_call d call s) = ids_drawn s"
  by (simp_all add: log_call_def)

lemma set_networks_simps:
  "ctrls (set_networks c tbl s) = (ctrls s)[c := (ctrls s ! c)\<lparr>networks := tbl\<rparr>]"
  "nets (set_networks c tbl s) = nets s"
  "eps (set_networks c tbl s) = eps s" "infos (set_networks c tbl s) = infos s"
  "calls (set_networks c tbl s) = calls s"
  "ids_drawn (set_networks c tbl s) = ids_drawn s"
  by (simp_all add: set_networks_def)

lemma set_endpoints_simps:
  "nets (set_endpoints n tbl s) = (nets s)[n := (nets s ! n)\<lparr>endpoints := tbl\<rparr>]"
  "ctrls (set_endpoints n tbl s) = ctrls s"
  "eps (set_endpoints n tbl s) = eps s" "infos (set_endpoints n tbl s) = infos s"
  "calls (set_endpoints n tbl s) = calls s"
  "ids_drawn (set_endpoints n tbl s) = ids_drawn s"
  by (simp_all add: set_endpoints_def)

lemma construct_network_simps:
  "ctrls (construct_network e c nm d s) = ctrls s"
  "nets (construct_network e c nm d s) = nets s @
          [\<lparr>ctrlr = c, n_name = nm, networkType = [],
            n_id = GenerateRandomID e (ids_drawn s), driver = d, endpoints = fmempty\<rparr>]"
  "eps (construct_network e c nm d s) = eps s"
  "infos (construct_network e c nm d s) = infos s"
  "calls (construct_network e c nm d s) = calls s"
  "ids_drawn (construct_network e c nm d s) = Suc (ids_drawn s)"
  by (simp_all add: construct_network_def)

text \<open>Taking an entry off a controller's table and putting it back restores the state.\<close>

lemma restore_ctrl:
  assumes "deref (ctrls s) c = Some C" and "fmlookup (networks C) k = Some v"
  shows "set_networks c
           (fmupd k v
              (networks (ctrls (log_call d call (set_networks c (fmdrop k (networks C)) s)) ! c)))
           (log_call d call (set_networks c (fmdrop k (networks C)) s)) = log_call d call s"
  using assms
  by (simp add: set_networks_def log_call_def deref_Some fmupd_fmdrop_same
        list_update_same_conv)

text \<open>The same for an entry of a network's endpoint table.\<close>

lemma restore_net:
  assumes "deref (nets s) n = Some N" and "fmlookup (endpoints N) k = Some v"
  shows "set_endpoints n
           (fmupd k v
              (endpoints (nets (log_call d call (set_endpoints n (fmdrop k (endpoints N)) s)) ! n)))
           (log_call d call (set_endpoints n (fmdrop k (endpoints N)) s)) = log_call d call s"
  using assms
  by (simp add: set_endpoints_def log_call_def deref_Some fmupd_fmdrop_same
        list_update_same_conv)

lemma Network_Delete_removes:
  assumes "Network_Delete e n s = (Return None, s')" and "deref (nets s) n = Some N"
  shows "NetworkByID (ctrlr N) (n_id N) s' = Return None"
  using assms
  by (auto simp: Network_Delete_def Let_def NetworkByID_def deref_def
                 log_call_simps set_networks_simps
           split: option.splits if_splits)

subsection \<open>Deleting a network\<close>

text \<open>
  Claim C1. Take a network that is registered in its controller, and a run of
  \<open>Network.Delete\<close> on it in which the driver's \<open>DeleteNetwork\<close> is called and fails.
  Then \<open>Delete\<close> returns the driver's error, \<open>NetworkByID\<close> with the network's id finds the
  same network afterwards, and the state is the one before the call but for the record
  of the driver call. The driver is called in the state where the entry is off the table.
\<close>

theorem Network_Delete_rollback:
  assumes "deref (nets s) n = Some N"
    and "deref (ctrls s) (ctrlr N) = Some C"
    and "fmlookup (networks C) (n_id N) = Some n"
    and "Network_Delete e n s = (r, s')"
    and "calls s' = calls s @ [(d, DeleteNetworkCall (n_id N))]"
    and "drv_error e d (DeleteNetworkCall (n_id N))
           (set_networks (ctrlr N) (fmdrop (n_id N) (networks C)) s) = Some err"
  shows "r = Return (Some (DriverError err))
         \<and> NetworkByID (ctrlr N) (n_id N) s' = Return (Some n)
         \<and> s' = log_call d (DeleteNetworkCall (n_id N)) s"
proof -
  let ?s1 = "set_networks (ctrlr N) (fmdrop (n_id N) (networks C)) s"
  have c1: "calls ?s1 = calls s" by (simp add: set_networks_def)
  from assms(1-5) have emp: "len_tbl (endpoints N) = 0"
    by (auto simp: Network_Delete_def split: if_splits)
  from assms(1-5) emp c1 have drv: "driver N = Some d"
    by (auto simp: Network_Delete_def Let_def log_call_def set_networks_def
          split: option.splits)
  from assms(1-4,6) emp drv
  have res: "r = Return (Some (DriverError err))"
    and st: "s' = set_networks (ctrlr N) (fmupd (n_id N) n
                (networks (ctrls (log_call d (DeleteNetworkCall (n_id N)) ?s1) ! ctrlr N)))
                (log_call d (DeleteNetworkCall (n_id N)) ?s1)"
    by (auto simp: Network_Delete_def Let_def)
  from st have st': "s' = log_call d (DeleteNetworkCall (n_id N)) s"
    by (simp only: restore_ctrl [OF assms(2,3)])
  have "NetworkByID (ctrlr N) (n_id N) s' = Return (Some n)"
    using assms(2,3) by (simp add: st' NetworkByID_def log_call_def)
  with res st' show ?thesis by simp
qed

theorem Network_Delete_rollback_witness:
  "deref (nets st_one) 0 = Some (nets st_one ! 0)
   \<and> fmlookup (networks (ctrls st_one ! 0)) ''a'' = Some 0
   \<and> calls (snd (Network_Delete env_busy 0 st_one)) = calls st_one @ [(0, DeleteNetworkCall ''a'')]
   \<and> fst (Network_Delete env_busy 0 st_one) = Return (Some (DriverError ''busy''))
   \<and> NetworkByID 0 ''a'' (snd (Network_Delete env_busy 0 st_one)) = Return (Some 0)
   \<and> snd (Network_Delete env_busy 0 st_one) = log_call 0 (DeleteNetworkCall ''a'') st_one"
proof -
  let ?N = "nets st_one ! 0" and ?C = "ctrls st_one ! 0"
  let ?run = "Network_Delete env_busy 0 st_one"
  have i: "n_id ?N = ''a''" and c: "ctrlr ?N = 0" by (simp_all add: st_one_def)
  have h1: "deref (nets st_one) 0 = Some ?N" by (simp add: deref_def st_one_def)
  have h2: "deref (ctrls st_one) (ctrlr ?N) = Some ?C" by (simp add: deref_def st_one_def)
  have h3: "fmlookup (networks ?C) (n_id ?N) = Some 0" by (simp add: st_one_def)
  have h4: "?run = (fst ?run, snd ?run)" by simp
  have h5: "calls (snd ?run) = calls st_one @ [(0, DeleteNetworkCall (n_id ?N))]"
    by code_simp
  have h6: "drv_error env_busy 0 (DeleteNetworkCall (n_id ?N))
              (set_networks (ctrlr ?N) (fmdrop (n_id ?N) (networks ?C)) st_one) = Some ''busy''"
    by (simp add: env_busy_def)
  note t = Network_Delete_rollback [OF h1 h2 h3 h4 h5 h6, unfolded i c]
  from t h1 h3 [unfolded i] h5 [unfolded i] show ?thesis by blast
qed

text \<open>
  Claim C9. When \<open>Network.Delete\<close> returns \<open>UnknownNetworkError\<close> or
  \<open>ActiveEndpointsError\<close>, the state after the call is the state before it: no driver
  call has been recorded, and the controller's table and the network's endpoint table
  are as they were.
\<close>

theorem Network_Delete_guard_no_effect:
  assumes "Network_Delete e n s = (Return (Some err), s')"
    and "(\<exists>nm i. err = UnknownNetworkError nm i) \<or> (\<exists>nm i. err = ActiveEndpointsError nm i)"
  shows "s' = s \<and> calls s' = calls s \<and> ctrls s' = ctrls s \<and> nets s' = nets s"
  using assms
  by (auto simp: Network_Delete_def Let_def split: option.splits if_splits)

theorem Network_Delete_guard_no_effect_witness:
  "Network_Delete env_ok 0 st_ep = (Return (Some (ActiveEndpointsError ''net1'' ''a'')), st_ep)
   \<and> calls (snd (Network_Delete env_ok 0 st_ep)) = calls st_ep"
proof -
  let ?run = "Network_Delete env_ok 0 st_ep"
  have r: "fst ?run = Return (Some (ActiveEndpointsError ''net1'' ''a''))"
    by code_simp
  then have h1: "?run = (Return (Some (ActiveEndpointsError ''net1'' ''a'')), snd ?run)"
    by (simp add: prod_eq_iff)
  have h2: "(\<exists>nm i. ActiveEndpointsError ''net1'' ''a'' = UnknownNetworkError nm i)
            \<or> (\<exists>nm i. ActiveEndpointsError ''net1'' ''a'' = ActiveEndpointsError nm i)"
    by simp
  from Network_Delete_guard_no_effect [OF h1 h2] h1 show ?thesis by simp
qed

subsection \<open>Creating a network\<close>

text \<open>
  Claim C3. Take a run of \<open>NewNetwork\<close> in which the driver's \<open>CreateNetwork\<close> is called
  and fails. Then \<open>NewNetwork\<close> returns the driver's error and every controller's table is
  as before the call: the state differs from the one before only by the network object
  that was built, the identifier drawn and the record of the driver call.
\<close>

theorem NewNetwork_driver_failure:
  assumes "NewNetwork e rank c ntype nm opts s = (r, s')"
    and "calls s' = calls s @ [(d, CreateNetworkCall i opts)]"
    and "drv_error e d (CreateNetworkCall i opts) (construct_network e c nm (Some d) s)
           = Some err"
  shows "r = Return (Inl (DriverError err))
         \<and> ctrls s' = ctrls s
         \<and> s' = log_call d (CreateNetworkCall i opts) (construct_network e c nm (Some d) s)"
  using assms
  by (auto simp: NewNetwork_def Let_def log_call_simps set_networks_simps
                 construct_network_simps
           split: option.splits outcome.splits bool.splits)

theorem NewNetwork_driver_failure_witness:
  "calls (snd (NewNetwork env_busy key_order 0 ''bridge'' ''net1'' [] st_ctrl))
     = calls st_ctrl @ [(0, CreateNetworkCall ''a'' [])]
   \<and> fst (NewNetwork env_busy key_order 0 ''bridge'' ''net1'' [] st_ctrl)
       = Return (Inl (DriverError ''busy''))
   \<and> ctrls (snd (NewNetwork env_busy key_order 0 ''bridge'' ''net1'' [] st_ctrl)) = ctrls st_ctrl
   \<and> NetworkByID 0 ''a'' (snd (NewNetwork env_busy key_order 0 ''bridge'' ''net1'' [] st_ctrl))
       = Return None"
proof -
  let ?run = "NewNetwork env_busy key_order 0 ''bridge'' ''net1'' [] st_ctrl"
  have h1: "?run = (fst ?run, snd ?run)" by simp
  have h2: "calls (snd ?run) = calls st_ctrl @ [(0, CreateNetworkCall ''a'' [])]"
    by code_simp
  have h3: "drv_error env_busy 0 (CreateNetworkCall ''a'' [])
              (construct_network env_busy 0 ''net1'' (Some 0) st_ctrl) = Some ''busy''"
    by (simp add: env_busy_def)
  note t = NewNetwork_driver_failure [OF h1 h2 h3]
  then have c: "ctrls (snd ?run) = ctrls st_ctrl" by blast
  have "NetworkByID 0 ''a'' st_ctrl = Return None" by code_simp
  then have "NetworkByID 0 ''a'' (snd ?run) = Return None"
    by (simp only: NetworkByID_def c)
  with t h2 show ?thesis by blast
qed

text \<open>
  Claim C10. When the network type has no registered driver, \<open>NewNetwork\<close> returns
  \<open>ErrInvalidNetworkDriver\<close> whatever the name is, also a name that a registered network
  has, and the state is unchanged: no driver call is recorded and no table is touched.
\<close>

theorem NewNetwork_invalid_driver:
  assumes "deref (ctrls s) c = Some C" and "fmlookup (drivers C) ntype = None"
  shows "NewNetwork e rank c ntype nm opts s = (Return (Inl ErrInvalidNetworkDriver), s)"
  using assms by (simp add: NewNetwork_def)

theorem NewNetwork_invalid_driver_witness:
  "deref (ctrls st_one) 0 = Some (ctrls st_one ! 0)
   \<and> fmlookup (drivers (ctrls st_one ! 0)) ''overlay'' = None
   \<and> name_taken (nets st_one) ''net1'' (range_tbl key_order (networks (ctrls st_one ! 0))) = Return True
   \<and> NewNetwork env_ok key_order 0 ''overlay'' ''net1'' [] st_one
       = (Return (Inl ErrInvalidNetworkDriver), st_one)"
proof -
  have a: "deref (ctrls st_one) 0 = Some (ctrls st_one ! 0)"
    by (simp add: deref_def st_one_def)
  have b: "fmlookup (drivers (ctrls st_one ! 0)) ''overlay'' = None"
    by (simp add: st_one_def)
  have c: "name_taken (nets st_one) ''net1'' (range_tbl key_order (networks (ctrls st_one ! 0)))
             = Return True"
    by code_simp
  show ?thesis using a b c NewNetwork_invalid_driver [OF a b] by simp
qed

subsection \<open>Round trip\<close>

text \<open>
  Claim C6. After a successful \<open>NewNetwork\<close>, \<open>NetworkByID\<close> with the id of the returned
  network yields that network; and after a successful \<open>Delete\<close> of that network,
  \<open>NetworkByID\<close> with the same id yields nil.
\<close>

theorem lifecycle_round_trip:
  assumes "NewNetwork e rank c ntype nm opts s = (Return (Inr n), s1)"
  shows "\<exists>i. ID n s1 = Return i \<and> NetworkByID c i s1 = Return (Some n)
           \<and> (\<forall>s2. Network_Delete e n s1 = (Return None, s2)
                  \<longrightarrow> NetworkByID c i s2 = Return None)"
proof -
  let ?i = "GenerateRandomID e (ids_drawn s)"
  from assms have n: "n = length (nets s)" and c: "c < length (ctrls s)"
    by (auto simp: NewNetwork_def Let_def deref_def
           split: option.splits outcome.splits bool.splits if_splits)
  from assms obtain d where
    s1: "s1 = set_networks c (fmupd ?i n (networks (ctrls s ! c)))
               (log_call d (CreateNetworkCall ?i opts) (construct_network e c nm (Some d) s))"
    by (auto simp: NewNetwork_def Let_def deref_def log_call_simps construct_network_simps
           split: option.splits outcome.splits bool.splits if_splits)
  have N: "deref (nets s1) n =
             Some \<lparr>ctrlr = c, n_name = nm, networkType = [], n_id = ?i,
                   driver = Some d, endpoints = fmempty\<rparr>"
    by (simp add: s1 n deref_def set_networks_simps log_call_simps construct_network_simps)
  have a: "ID n s1 = Return ?i" by (simp add: ID_def N)
  have b: "NetworkByID c ?i s1 = Return (Some n)"
    using c by (simp add: NetworkByID_def s1 deref_def set_networks_simps log_call_simps
                          construct_network_simps)
  have "NetworkByID c ?i s2 = Return None" if "Network_Delete e n s1 = (Return None, s2)" for s2
    using Network_Delete_removes [OF that N] by simp
  with a b show ?thesis by blast
qed

theorem lifecycle_round_trip_witness:
  "fst (NewNetwork env_ok key_order 0 ''bridge'' ''net1'' [] st_ctrl) = Return (Inr 0)
   \<and> fst (Network_Delete env_ok 0 (snd (NewNetwork env_ok key_order 0 ''bridge'' ''net1'' [] st_ctrl)))
       = Return None
   \<and> (\<exists>i. ID 0 (snd (NewNetwork env_ok key_order 0 ''bridge'' ''net1'' [] st_ctrl)) = Return i
          \<and> NetworkByID 0 i (snd (NewNetwork env_ok key_order 0 ''bridge'' ''net1'' [] st_ctrl))
              = Return (Some 0)
          \<and> NetworkByID 0 i
               (snd (Network_Delete env_ok 0
                       (snd (NewNetwork env_ok key_order 0 ''bridge'' ''net1'' [] st_ctrl))))
              = Return None)"
proof -
  let ?new = "NewNetwork env_ok key_order 0 ''bridge'' ''net1'' [] st_ctrl"
  let ?del = "Network_Delete env_ok 0 (snd ?new)"
  have a: "fst ?new = Return (Inr 0)" by code_simp
  then have h1: "?new = (Return (Inr 0), snd ?new)" by (simp add: prod_eq_iff)
  have b: "fst ?del = Return None" by code_simp
  then have h2: "?del = (Return None, snd ?del)" by (simp add: prod_eq_iff)
  from lifecycle_round_trip [OF h1] h2 a b show ?thesis by blast
qed

subsection \<open>Deleting an endpoint\<close>

text \<open>
  Claim C5. For an endpoint of a network: when the endpoint's id is not in the network's
  endpoint table, \<open>Endpoint.Delete\<close> returns \<open>UnknownEndpointError\<close> and changes nothing.
  When it is in the table, the driver's \<open>DeleteEndpoint\<close> is called in a state where the
  entry is already off the table and no call has been recorded yet; when the driver
  returns nil the result is nil; when the driver fails, \<open>Delete\<close> returns the driver's error
  and the endpoint is in the table again afterwards (and the state is the one before the
  call but for the record of the driver call, when the entry was this endpoint).
\<close>

theorem Endpoint_Delete_cases:
  assumes "deref (eps s) ep = Some E" and "deref (nets s) (network E) = Some N"
  shows "(fmlookup (endpoints N) (ep_id E) = None \<longrightarrow>
            Endpoint_Delete e ep s
              = (Return (Some (UnknownEndpointError (ep_name E) (ep_id E))), s))
       \<and> (\<forall>x d. fmlookup (endpoints N) (ep_id E) = Some x \<and> driver N = Some d \<longrightarrow>
            (let call = DeleteEndpointCall (n_id N) (ep_id E);
                 s1 = set_endpoints (network E) (fmdrop (ep_id E) (endpoints N)) s;
                 s' = snd (Endpoint_Delete e ep s)
             in EndpointByID (network E) (ep_id E) s1 = Return None
                \<and> calls s1 = calls s
                \<and> calls s' = calls s @ [(d, call)]
                \<and> (case drv_error e d call s1 of
                      None \<Rightarrow> Endpoint_Delete e ep s = (Return None, log_call d call s1)
                    | Some err \<Rightarrow>
                        fst (Endpoint_Delete e ep s) = Return (Some (DriverError err))
                        \<and> EndpointByID (network E) (ep_id E) s' = Return (Some ep)
                        \<and> (x = ep \<longrightarrow> s' = log_call d call s))))"
proof (intro conjI allI impI)
  assume "fmlookup (endpoints N) (ep_id E) = None"
  with assms show "Endpoint_Delete e ep s
              = (Return (Some (UnknownEndpointError (ep_name E) (ep_id E))), s)"
    by (simp add: Endpoint_Delete_def)
next
  fix x d
  assume h: "fmlookup (endpoints N) (ep_id E) = Some x \<and> driver N = Some d"
  let ?call = "DeleteEndpointCall (n_id N) (ep_id E)"
  let ?s1 = "set_endpoints (network E) (fmdrop (ep_id E) (endpoints N)) s"
  let ?s' = "snd (Endpoint_Delete e ep s)"
  from assms(2) have n: "network E < length (nets s)" by (simp add: deref_Some)
  have a: "EndpointByID (network E) (ep_id E) ?s1 = Return None"
    using n by (simp add: EndpointByID_def deref_def set_endpoints_simps)
  have b: "calls ?s1 = calls s" by (simp add: set_endpoints_simps)
  have c: "calls ?s' = calls s @ [(d, ?call)]"
    using assms h
    by (simp add: Endpoint_Delete_def Let_def log_call_simps set_endpoints_simps
          split: option.splits)
  have d: "case drv_error e d ?call ?s1 of
             None \<Rightarrow> Endpoint_Delete e ep s = (Return None, log_call d ?call ?s1)
           | Some err \<Rightarrow>
               fst (Endpoint_Delete e ep s) = Return (Some (DriverError err))
               \<and> EndpointByID (network E) (ep_id E) ?s' = Return (Some ep)
               \<and> (x = ep \<longrightarrow> ?s' = log_call d ?call s)"
  proof (cases "drv_error e d ?call ?s1")
    case None
    with assms h show ?thesis by (simp add: Endpoint_Delete_def Let_def)
  next
    case (Some err)
    with assms h have run: "Endpoint_Delete e ep s =
        (Return (Some (DriverError err)),
         set_endpoints (network E)
           (fmupd (ep_id E) ep (endpoints (nets (log_call d ?call ?s1) ! network E)))
           (log_call d ?call ?s1))"
      by (simp add: Endpoint_Delete_def Let_def)
    have reins: "EndpointByID (network E) (ep_id E) ?s' = Return (Some ep)"
      using n by (simp add: run EndpointByID_def deref_def set_endpoints_simps log_call_simps)
    have "?s' = log_call d ?call s" if "x = ep"
      using restore_net [OF assms(2), of "ep_id E" ep d ?call] h that by (simp add: run)
    with Some run reins show ?thesis by simp
  qed
  from a b c d show "let call = DeleteEndpointCall (n_id N) (ep_id E);
                 s1 = set_endpoints (network E) (fmdrop (ep_id E) (endpoints N)) s;
                 s' = snd (Endpoint_Delete e ep s)
             in EndpointByID (network E) (ep_id E) s1 = Return None
                \<and> calls s1 = calls s
                \<and> calls s' = calls s @ [(d, call)]
                \<and> (case drv_error e d call s1 of
                      None \<Rightarrow> Endpoint_Delete e ep s = (Return None, log_call d call s1)
                    | Some err \<Rightarrow>
                        fst (Endpoint_Delete e ep s) = Return (Some (DriverError err))
                        \<and> EndpointByID (network E) (ep_id E) s' = Return (Some ep)
                        \<and> (x = ep \<longrightarrow> s' = log_call d call s))"
    by (simp only: Let_def)
qed

theorem Endpoint_Delete_cases_witness:
  "fmlookup (endpoints (nets st_ep ! 0)) ''aa'' = Some 0
   \<and> fst (Endpoint_Delete env_busy 0 st_ep) = Return (Some (DriverError ''busy''))
   \<and> EndpointByID 0 ''aa'' (snd (Endpoint_Delete env_busy 0 st_ep)) = Return (Some 0)
   \<and> snd (Endpoint_Delete env_busy 0 st_ep) = log_call 0 (DeleteEndpointCall ''a'' ''aa'') st_ep
   \<and> fmlookup (endpoints (nets (snd (Endpoint_Delete env_ok 0 st_ep)) ! 0)) ''aa'' = None
   \<and> Endpoint_Delete env_ok 0 (snd (Endpoint_Delete env_ok 0 st_ep))
       = (Return (Some (UnknownEndpointError ''ep1'' ''aa'')),
          snd (Endpoint_Delete env_ok 0 st_ep))"
proof -
  let ?E = "eps st_ep ! 0" and ?N = "nets st_ep ! 0"
  let ?gone = "snd (Endpoint_Delete env_ok 0 st_ep)"
  have f: "ep_id ?E = ''aa''" "ep_name ?E = ''ep1''" "network ?E = 0" "n_id ?N = ''a''"
    by (simp_all add: st_ep_def)
  have h1: "deref (eps st_ep) 0 = Some ?E" by (simp add: deref_def st_ep_def)
  have h2: "deref (nets st_ep) (network ?E) = Some ?N" by (simp add: deref_def st_ep_def)
  have h3: "fmlookup (endpoints ?N) (ep_id ?E) = Some 0 \<and> driver ?N = Some 0"
    by (simp add: st_ep_def)
  have h4: "drv_error env_busy 0 (DeleteEndpointCall (n_id ?N) (ep_id ?E))
              (set_endpoints (network ?E) (fmdrop (ep_id ?E) (endpoints ?N)) st_ep)
            = Some ''busy''"
    by (simp add: env_busy_def)
  note t = Endpoint_Delete_cases [OF h1 h2, of env_busy, THEN conjunct2, rule_format,
      OF h3, unfolded Let_def h4 option.case]
  from t [unfolded f] have present:
    "fst (Endpoint_Delete env_busy 0 st_ep) = Return (Some (DriverError ''busy''))
     \<and> EndpointByID 0 ''aa'' (snd (Endpoint_Delete env_busy 0 st_ep)) = Return (Some 0)
     \<and> snd (Endpoint_Delete env_busy 0 st_ep)
         = log_call 0 (DeleteEndpointCall ''a'' ''aa'') st_ep"
    by blast
  have g0: "eps ?gone ! 0 = ?E" by code_simp
  have g1: "deref (eps ?gone) 0 = Some (eps ?gone ! 0)" by code_simp
  have g2: "deref (nets ?gone) (network (eps ?gone ! 0)) = Some (nets ?gone ! 0)" by code_simp
  have g3: "fmlookup (endpoints (nets ?gone ! 0)) (ep_id (eps ?gone ! 0)) = None" by code_simp
  note absent = Endpoint_Delete_cases [OF g1 g2, of env_ok, THEN conjunct1, rule_format,
      OF g3, unfolded g0 f]
  from present absent h3 [unfolded f] g3 [unfolded g0 f] show ?thesis by blast
qed

subsection \<open>The sandbox-info snapshot\<close>

text \<open>
  Claim C8. \<open>SandboxInfo\<close> returns nil, and changes nothing, for an endpoint whose snapshot
  is nil (the field is written once, when the endpoint is created). Otherwise it returns
  a pointer to a new object with the content of the stored snapshot: the pointer is not
  the stored one and was not in use before, every object that existed is as it was, and
  whatever the caller writes through the returned pointer, the endpoint and the content
  of its stored snapshot stay the same.
\<close>

theorem SandboxInfo_copy:
  assumes "deref (eps s) ep = Some E"
  shows "(sandboxInfo E = None \<longrightarrow> SandboxInfo ep s = (Return None, s))
       \<and> (\<forall>r v. sandboxInfo E = Some r \<and> deref (infos s) r = Some v \<longrightarrow>
            (\<exists>r' s'. SandboxInfo ep s = (Return (Some r'), s')
               \<and> r' \<noteq> r \<and> deref (infos s) r' = None \<and> deref (infos s') r' = Some v
               \<and> eps s' = eps s
               \<and> (\<forall>q. q \<noteq> r' \<longrightarrow> deref (infos s') q = deref (infos s) q)
               \<and> (\<forall>w. eps (write_info r' w s') = eps s
                      \<and> deref (infos (write_info r' w s')) r = Some v)))"
  using assms
  by (auto simp: SandboxInfo_def GetCopy_def write_info_def deref_def nth_append)

theorem SandboxInfo_copy_witness:
  "sandboxInfo (eps st_ep ! 0) = Some 0
   \<and> deref (infos st_ep) 0 = Some ''eth0 10.0.0.2/24''
   \<and> (\<exists>r' s'. SandboxInfo 0 st_ep = (Return (Some r'), s')
          \<and> r' \<noteq> 0 \<and> deref (infos s') r' = Some ''eth0 10.0.0.2/24''
          \<and> deref (infos (write_info r' ''changed'' s')) 0 = Some ''eth0 10.0.0.2/24'')
   \<and> sandboxInfo (eps st_eps ! 0) = None
   \<and> SandboxInfo 0 st_eps = (Return None, st_eps)"
proof -
  have h1: "deref (eps st_ep) 0 = Some (eps st_ep ! 0)" by (simp add: deref_def st_ep_def)
  have h2: "sandboxInfo (eps st_ep ! 0) = Some 0 \<and> deref (infos st_ep) 0 = Some ''eth0 10.0.0.2/24''"
    by (simp add: deref_def st_ep_def)
  note some = SandboxInfo_copy [OF h1, THEN conjunct2, rule_format, OF h2]
  have g1: "deref (eps st_eps) 0 = Some (eps st_eps ! 0)" by code_simp
  have g2: "sandboxInfo (eps st_eps ! 0) = None" by code_simp
  note none = SandboxInfo_copy [OF g1, THEN conjunct1, rule_format, OF g2]
  from some none h2 g2 show ?thesis by blast
qed

subsection \<open>Walking\<close>

lemma walk_stops:
  "True \<notin> set (answers walker pre w) \<Longrightarrow> fst (walker x (run_all walker pre w))
   \<Longrightarrow> walk walker (pre @ x # post) w = (True, run_all walker (pre @ [x]) w)"
  by (induction pre arbitrary: w) (auto split: prod.splits bool.splits)

lemma walk_covers:
  "True \<notin> set (answers walker xs w) \<Longrightarrow> walk walker xs w = (False, run_all walker xs w)"
  by (induction xs arbitrary: w) (auto split: prod.splits bool.splits)

lemma walk_void_stops:
  "True \<notin> set (answers walker pre w) \<Longrightarrow> fst (walker x (run_all walker pre w))
   \<Longrightarrow> walk_void walker (pre @ x # post) w = ((), run_all walker (pre @ [x]) w)"
  by (induction pre arbitrary: w) (auto split: prod.splits bool.splits)

lemma walk_void_covers:
  "True \<notin> set (answers walker xs w) \<Longrightarrow> walk_void walker xs w = ((), run_all walker xs w)"
  by (induction xs arbitrary: w) (auto split: prod.splits bool.splits)

text \<open>
  Claim C7, with \<open>WalkEndpoints\<close> handing back no result. The snapshot of a walk is the list
  that \<open>Networks\<close> (for \<open>WalkEndpoints\<close>: \<open>Endpoints\<close>) returns in the order of this walk,
  whichever order that is. When the walker answers false on a first part of the snapshot
  and true on the next element, \<open>WalkNetworks\<close> returns true and the walker has been
  applied to that first part and that element and to nothing after it. When the walker
  answers false on every element, \<open>WalkNetworks\<close> returns false and the walker has been
  applied to the whole snapshot. \<open>WalkEndpoints\<close> applies the walker to the same elements in
  both cases and returns nothing. The two walks are independent: each has its own
  receiver, state and order.
\<close>

theorem walk_short_circuit:
  "(Networks rank c s = Return ns \<longrightarrow>
      (\<forall>pre x post. ns = pre @ x # post \<and> True \<notin> set (answers nwalker pre w)
            \<and> fst (nwalker x (run_all nwalker pre w)) \<longrightarrow>
          WalkNetworks rank c nwalker s w = Return (True, run_all nwalker (pre @ [x]) w))
      \<and> (True \<notin> set (answers nwalker ns w) \<longrightarrow>
          WalkNetworks rank c nwalker s w = Return (False, run_all nwalker ns w)))
   \<and> (Endpoints rank' n t = Return es \<longrightarrow>
      (\<forall>pre x post. es = pre @ x # post \<and> True \<notin> set (answers ewalker pre v)
            \<and> fst (ewalker x (run_all ewalker pre v)) \<longrightarrow>
          WalkEndpoints rank' n ewalker t v = Return ((), run_all ewalker (pre @ [x]) v))
      \<and> (True \<notin> set (answers ewalker es v) \<longrightarrow>
          WalkEndpoints rank' n ewalker t v = Return ((), run_all ewalker es v)))"
  by (simp add: WalkNetworks_def WalkEndpoints_def walk_stops walk_covers
        walk_void_stops walk_void_covers)

text \<open>
  On the controller with three networks the walker \<open>zero_after_two\<close> never stops when the
  walk goes by key and stops at the second network when the key \<open>aaa\<close> comes first; on a
  new controller the walk is over at once. The same for two walks over three endpoints.
\<close>

theorem walk_short_circuit_witness:
  "Networks key_order 0 st_three = Return [0, 1, 2]
   \<and> WalkNetworks key_order 0 zero_after_two st_three [] = Return (False, [0, 1, 2])
   \<and> Networks last_key_first 0 st_three = Return [2, 0, 1]
   \<and> WalkNetworks last_key_first 0 zero_after_two st_three [] = Return (True, [2, 0])
   \<and> Networks key_order 0 st_ctrl = Return []
   \<and> WalkNetworks key_order 0 zero_after_two st_ctrl [] = Return (False, [])
   \<and> Endpoints key_order 0 st_eps = Return [0, 1, 2]
   \<and> WalkEndpoints key_order 0 (log_until 1) st_eps [] = Return ((), [0, 1])
   \<and> Endpoints last_key_first 0 st_eps = Return [1, 0, 2]
   \<and> WalkEndpoints last_key_first 0 (log_until 7) st_eps [] = Return ((), [1, 0, 2])"
proof -
  have n1: "Networks key_order 0 st_three = Return [0, 1, 2]" by code_simp
  have n2: "Networks last_key_first 0 st_three = Return [2, 0, 1]" by code_simp
  have n3: "Networks key_order 0 st_ctrl = Return []" by code_simp
  have e1: "Endpoints key_order 0 st_eps = Return [0, 1, 2]" by code_simp
  have e2: "Endpoints last_key_first 0 st_eps = Return [1, 0, 2]" by code_simp
  have q1: "True \<notin> set (answers zero_after_two [0, 1, 2] [])"
    by (simp add: zero_after_two_def)
  have p2: "[2, 0, 1] = [2] @ 0 # [1::nat] \<and> True \<notin> set (answers zero_after_two [2] [])
            \<and> fst (zero_after_two 0 (run_all zero_after_two [2] []))"
    by (simp add: zero_after_two_def)
  have q3: "True \<notin> set (answers zero_after_two [] [])" by simp
  have p4: "[0, 1, 2] = [0] @ 1 # [2::nat] \<and> True \<notin> set (answers (log_until 1) [0] [])
            \<and> fst (log_until 1 1 (run_all (log_until 1) [0] []))"
    by (simp add: log_until_def)
  have q5: "True \<notin> set (answers (log_until 7) [1, 0, 2] [])"
    by (simp add: log_until_def)
  have r1: "run_all zero_after_two [0, 1, 2] [] = [0, 1, 2]"
    and r2: "run_all zero_after_two ([2] @ [0]) [] = [2, 0]"
    and r3: "run_all zero_after_two [] [] = []"
    by (simp_all add: zero_after_two_def)
  have r4: "run_all (log_until 1) ([0] @ [1]) [] = [0, 1]"
    and r5: "run_all (log_until 7) [1, 0, 2] [] = [1, 0, 2]"
    by (simp_all add: log_until_def)
  note a = walk_short_circuit [where nwalker = zero_after_two and w = "[]",
      THEN conjunct1, THEN mp, OF n1, THEN conjunct2, THEN mp, OF q1, unfolded r1]
  note b = walk_short_circuit [where nwalker = zero_after_two and w = "[]",
      THEN conjunct1, THEN mp, OF n2, THEN conjunct1, rule_format, OF p2, unfolded r2]
  note c = walk_short_circuit [where nwalker = zero_after_two and w = "[]",
      THEN conjunct1, THEN mp, OF n3, THEN conjunct2, THEN mp, OF q3, unfolded r3]
  note d = walk_short_circuit [where ewalker = "log_until 1" and v = "[]",
      THEN conjunct2, THEN mp, OF e1, THEN conjunct1, rule_format, OF p4, unfolded r4]
  note e = walk_short_circuit [where ewalker = "log_until 7" and v = "[]",
      THEN conjunct2, THEN mp, OF e2, THEN conjunct2, THEN mp, OF q5, unfolded r5]
  from n1 n2 n3 e1 e2 a b c d e show ?thesis by blast
qed

text \<open>
  The claim C7 as it is written gives \<open>WalkEndpoints\<close> a result, true after a stop and false
  otherwise. On the network \<open>net1\<close> with its one endpoint, a walker that stops at once and a
  walker that never stops leave the caller with the same, empty, result.
\<close>

theorem WalkEndpoints_result_counterexample:
  "WalkEndpoints key_order 0 (\<lambda>ep w. (True, w)) st_ep () = Return ((), ())
   \<and> WalkEndpoints key_order 0 (\<lambda>ep w. (False, w)) st_ep () = Return ((), ())"
  by code_simp

subsection \<open>Uniqueness\<close>

lemma table_ok_iff:
  "table_ok n s \<longleftrightarrow>
     n < length (nets s)
     \<and> (\<forall>k r. fmlookup (endpoints (nets s ! n)) k = Some r \<longrightarrow>
           r < length (eps s) \<and> ep_id (eps s ! r) = k \<and> network (eps s ! r) = n)"
  by (auto simp: table_ok_def list_all_iff split: option.splits intro: fmdomI)

lemma name_taken_False:
  "name_taken h nm rs = Return False \<Longrightarrow> r \<in> set rs \<Longrightarrow> r < length h \<and> n_name (h ! r) \<noteq> nm"
  by (induction rs) (auto simp: deref_def split: if_splits)

lemma NewNetwork_success:
  assumes "NewNetwork e rank c ntype nm opts s = (Return (Inr n), s')"
  shows "n = length (nets s) \<and> c < length (ctrls s)
         \<and> name_taken (nets s) nm (range_tbl rank (networks (ctrls s ! c))) = Return False
         \<and> (\<exists>d. nets s' = nets s @
                  [\<lparr>ctrlr = c, n_name = nm, networkType = [],
                    n_id = GenerateRandomID e (ids_drawn s), driver = d,
                    endpoints = fmempty\<rparr>])
         \<and> ctrls s' = (ctrls s)[c := (ctrls s ! c)
               \<lparr>networks := fmupd (GenerateRandomID e (ids_drawn s)) n
                              (networks (ctrls s ! c))\<rparr>]
         \<and> eps s' = eps s"
  using assms
  by (auto simp: NewNetwork_def Let_def deref_def log_call_simps set_networks_simps
                 construct_network_simps
           split: option.splits outcome.splits bool.splits if_splits)

lemma NewNetwork_failure:
  assumes "\<forall>n. fst (NewNetwork e rank c ntype nm opts s) \<noteq> Return (Inr n)"
  shows "ctrls (snd (NewNetwork e rank c ntype nm opts s)) = ctrls s
         \<and> (\<exists>ns. nets (snd (NewNetwork e rank c ntype nm opts s)) = nets s @ ns)"
  using assms
  by (auto simp: NewNetwork_def Let_def log_call_simps construct_network_simps
           split: option.splits outcome.splits bool.splits)

lemma registry_ok_grow:
  assumes ok: "registry_ok c s" and c: "ctrls s' = ctrls s" and n: "nets s' = nets s @ ns"
  shows "registry_ok c s'"
proof -
  let ?tbl = "networks (ctrls s ! c)"
  from ok have v: "r < length (nets s)" if "fmlookup ?tbl k = Some r" for k r
    using that unfolding registry_ok_def by blast
  have same: "nets s' ! r = nets s ! r" if "fmlookup ?tbl k = Some r" for k r
    using v [OF that] by (simp add: n nth_append)
  have a: "c < length (ctrls s')" using ok c by (simp add: registry_ok_def)
  have b: "r < length (nets s')" if "fmlookup ?tbl k = Some r" for k r
    using v [OF that] by (simp add: n)
  have d: "n_name (nets s' ! r1) \<noteq> n_name (nets s' ! r2)"
    if "k1 \<noteq> k2" "fmlookup ?tbl k1 = Some r1" "fmlookup ?tbl k2 = Some r2" for k1 k2 r1 r2
  proof -
    from ok that have "n_name (nets s ! r1) \<noteq> n_name (nets s ! r2)"
      unfolding registry_ok_def by blast
    then show ?thesis by (simp add: same [OF that(2)] same [OF that(3)])
  qed
  from a b d show ?thesis unfolding registry_ok_def c by blast
qed

lemma registry_ok_NewNetwork:
  assumes ok: "registry_ok c s"
  shows "registry_ok c (snd (NewNetwork e rank c ntype nm opts s))"
proof (cases "\<exists>n. fst (NewNetwork e rank c ntype nm opts s) = Return (Inr n)")
  case False
  then have "\<forall>n. fst (NewNetwork e rank c ntype nm opts s) \<noteq> Return (Inr n)" by blast
  from NewNetwork_failure [OF this] ok show ?thesis by (blast intro: registry_ok_grow)
next
  case True
  then obtain n where "fst (NewNetwork e rank c ntype nm opts s) = Return (Inr n)" ..
  then have run: "NewNetwork e rank c ntype nm opts s
                   = (Return (Inr n), snd (NewNetwork e rank c ntype nm opts s))"
    by (simp add: prod_eq_iff)
  let ?s' = "snd (NewNetwork e rank c ntype nm opts s)"
  let ?i = "GenerateRandomID e (ids_drawn s)"
  let ?tbl = "networks (ctrls s ! c)"
  from NewNetwork_success [OF run] obtain d where
    n: "n = length (nets s)" and c: "c < length (ctrls s)"
    and free: "name_taken (nets s) nm (range_tbl rank ?tbl) = Return False"
    and heap: "nets ?s' = nets s @
                  [\<lparr>ctrlr = c, n_name = nm, networkType = [], n_id = ?i, driver = d,
                    endpoints = fmempty\<rparr>]"
    and reg: "ctrls ?s' = (ctrls s)[c := (ctrls s ! c)\<lparr>networks := fmupd ?i n ?tbl\<rparr>]"
    by blast
  have tbl': "networks (ctrls ?s' ! c) = fmupd ?i n ?tbl"
    using c by (simp add: reg)
  have old: "r < length (nets s) \<and> n_name (nets s ! r) \<noteq> nm"
    if "fmlookup ?tbl k = Some r" for k r
    using name_taken_False [OF free, of r] that by (auto simp: set_range_tbl)
  have new_name: "n_name (nets ?s' ! n) = nm" by (simp add: heap n)
  have old_name: "n_name (nets ?s' ! r) = n_name (nets s ! r)" if "r < length (nets s)" for r
    using that by (simp add: heap nth_append)
  have valid: "r < length (nets ?s')" if "fmlookup (fmupd ?i n ?tbl) k = Some r" for k r
    using that old [of k r] by (auto simp: heap n split: if_splits)
  have names: "n_name (nets ?s' ! r1) \<noteq> n_name (nets ?s' ! r2)"
    if neq: "k1 \<noteq> k2" and l1: "fmlookup (fmupd ?i n ?tbl) k1 = Some r1"
      and l2: "fmlookup (fmupd ?i n ?tbl) k2 = Some r2" for k1 k2 r1 r2
  proof -
    from neq consider
      (left) "k1 = ?i" "k2 \<noteq> ?i" | (right) "k1 \<noteq> ?i" "k2 = ?i" | (none) "k1 \<noteq> ?i" "k2 \<noteq> ?i"
      by blast
    then show ?thesis
    proof cases
      case left
      with l1 l2 have "r1 = n" "fmlookup ?tbl k2 = Some r2" by simp_all
      with old [of k2 r2] new_name old_name [of r2] show ?thesis by auto
    next
      case right
      with l1 l2 have "r2 = n" "fmlookup ?tbl k1 = Some r1" by simp_all
      with old [of k1 r1] new_name old_name [of r1] show ?thesis by auto
    next
      case none
      with l1 l2 have l: "fmlookup ?tbl k1 = Some r1" "fmlookup ?tbl k2 = Some r2"
        by simp_all
      with ok neq have "n_name (nets s ! r1) \<noteq> n_name (nets s ! r2)"
        unfolding registry_ok_def by blast
      with old [OF l(1)] old [OF l(2)] old_name [of r1] old_name [of r2] show ?thesis
        by simp
    qed
  qed
  have "c < length (ctrls ?s')" using c by (simp add: reg)
  with valid names show ?thesis
    unfolding registry_ok_def tbl' by blast
qed

lemma registry_ok_run:
  "registry_ok c s \<Longrightarrow> registry_ok c (run_NewNetworks e c reqs s)"
proof (induction reqs arbitrary: s)
  case Nil
  then show ?case by simp
next
  case (Cons a reqs)
  obtain rank ntype nm opts where a: "a = (rank, ntype, nm, opts)" by (cases a)
  show ?case
    unfolding a run_NewNetworks.simps
    by (rule Cons.IH) (rule registry_ok_NewNetwork [OF Cons.prems])
qed

lemma registry_ok_New: "New e s0 = (c, s1) \<Longrightarrow> registry_ok c s1"
  by (auto simp: New_def registry_ok_def)

lemma table_ok_NewNetwork:
  "NewNetwork e rank c ntype nm opts s = (Return (Inr n), s1) \<Longrightarrow> table_ok n s1"
  by (drule NewNetwork_success) (auto simp: table_ok_iff)

lemma CreateEndpoint_state:
  fixes e n nm key opts s
  defines "s' \<equiv> snd (CreateEndpoint e n nm key opts s)"
    and "eid \<equiv> GenerateRandomID e (ids_drawn s)"
  shows "(\<exists>E. eps s' = eps s @ [E] \<and> ep_id E = eid \<and> network E = n)
         \<and> (nets s' = nets s
            \<or> n < length (nets s)
              \<and> nets s' = (nets s)[n := (nets s ! n)
                   \<lparr>endpoints := fmupd eid (length (eps s)) (endpoints (nets s ! n))\<rparr>])"
  unfolding s'_def eid_def
  by (simp add: CreateEndpoint_def Let_def deref_def log_call_simps set_endpoints_simps
        split: option.splits)

lemma table_ok_CreateEndpoint:
  assumes ok: "table_ok n s"
  shows "table_ok n (snd (CreateEndpoint e n nm key opts s))"
proof -
  let ?s' = "snd (CreateEndpoint e n nm key opts s)"
  let ?eid = "GenerateRandomID e (ids_drawn s)"
  let ?tbl = "endpoints (nets s ! n)"
  from ok have n: "n < length (nets s)"
    and old: "\<And>k r. fmlookup ?tbl k = Some r \<Longrightarrow>
               r < length (eps s) \<and> ep_id (eps s ! r) = k \<and> network (eps s ! r) = n"
    unfolding table_ok_iff by blast+
  from CreateEndpoint_state [of e n nm key opts s] obtain E where
    heap: "eps ?s' = eps s @ [E]" and E: "ep_id E = ?eid" "network E = n"
    and tbl: "nets ?s' = nets s
              \<or> nets ?s' = (nets s)[n := (nets s ! n)
                   \<lparr>endpoints := fmupd ?eid (length (eps s)) ?tbl\<rparr>]"
    by blast
  have keep: "r < length (eps ?s') \<and> ep_id (eps ?s' ! r) = k \<and> network (eps ?s' ! r) = n"
    if "fmlookup ?tbl k = Some r" for k r
    using old [OF that] by (simp add: heap nth_append)
  have fresh: "length (eps s) < length (eps ?s')
               \<and> ep_id (eps ?s' ! length (eps s)) = ?eid
               \<and> network (eps ?s' ! length (eps s)) = n"
    by (simp add: heap E)
  have len: "n < length (nets ?s')" using tbl n by auto
  have "r < length (eps ?s') \<and> ep_id (eps ?s' ! r) = k \<and> network (eps ?s' ! r) = n"
    if l: "fmlookup (endpoints (nets ?s' ! n)) k = Some r" for k r
  proof -
    from tbl n consider "endpoints (nets ?s' ! n) = ?tbl"
      | "endpoints (nets ?s' ! n) = fmupd ?eid (length (eps s)) ?tbl"
      by auto
    then show ?thesis
    proof cases
      case 1
      with l keep show ?thesis by simp
    next
      case 2
      show ?thesis
      proof (cases "k = ?eid")
        case True
        with l 2 have "r = length (eps s)" by simp
        with fresh True show ?thesis by simp
      next
        case False
        with l 2 have "fmlookup ?tbl k = Some r" by simp
        then show ?thesis by (rule keep)
      qed
    qed
  qed
  with len show ?thesis unfolding table_ok_iff by blast
qed

lemma table_ok_run:
  "table_ok n s \<Longrightarrow> table_ok n (run_CreateEndpoints e n reqs s)"
proof (induction reqs arbitrary: s)
  case Nil
  then show ?case by simp
next
  case (Cons a reqs)
  obtain nm key opts where a: "a = (nm, key, opts)" by (cases a)
  show ?case
    unfolding a run_CreateEndpoints.simps
    by (rule Cons.IH) (rule table_ok_CreateEndpoint [OF Cons.prems])
qed

text \<open>
  Claim C4. Start with a new controller and make any sequence of \<open>NewNetwork\<close> calls on
  it: two entries of its table under different keys are networks with different names.
  Start with a network that \<open>NewNetwork\<close> has just returned and make any sequence of
  \<open>CreateEndpoint\<close> calls on it: two entries of its endpoint table under different keys are
  endpoints with different ids. Calls that fail may be part of either sequence. The
  identifier generator is arbitrary here: when it repeats an identifier the later entry
  takes the place of the earlier one.
\<close>

theorem uniqueness:
  "(New e s0 = (c, s1) \<and> s = run_NewNetworks e c reqs s1
      \<and> deref (ctrls s) c = Some C \<and> k1 \<noteq> k2
      \<and> fmlookup (networks C) k1 = Some r1 \<and> fmlookup (networks C) k2 = Some r2
    \<longrightarrow> (\<exists>N1 N2. deref (nets s) r1 = Some N1 \<and> deref (nets s) r2 = Some N2
                  \<and> n_name N1 \<noteq> n_name N2))
   \<and> (NewNetwork e rank c' ntype nm opts t0 = (Return (Inr n), t1)
      \<and> t = run_CreateEndpoints e n ereqs t1
      \<and> deref (nets t) n = Some N \<and> i1 \<noteq> i2
      \<and> fmlookup (endpoints N) i1 = Some p1 \<and> fmlookup (endpoints N) i2 = Some p2
    \<longrightarrow> (\<exists>E1 E2. deref (eps t) p1 = Some E1 \<and> deref (eps t) p2 = Some E2
                  \<and> ep_id E1 \<noteq> ep_id E2))"
proof (intro conjI impI)
  assume h: "New e s0 = (c, s1) \<and> s = run_NewNetworks e c reqs s1
      \<and> deref (ctrls s) c = Some C \<and> k1 \<noteq> k2
      \<and> fmlookup (networks C) k1 = Some r1 \<and> fmlookup (networks C) k2 = Some r2"
  then have "registry_ok c s" by (auto intro: registry_ok_run registry_ok_New)
  moreover from h have "C = ctrls s ! c" unfolding deref_Some by blast
  ultimately show "\<exists>N1 N2. deref (nets s) r1 = Some N1 \<and> deref (nets s) r2 = Some N2
                  \<and> n_name N1 \<noteq> n_name N2"
    using h unfolding registry_ok_def deref_Some by blast
next
  assume h: "NewNetwork e rank c' ntype nm opts t0 = (Return (Inr n), t1)
      \<and> t = run_CreateEndpoints e n ereqs t1
      \<and> deref (nets t) n = Some N \<and> i1 \<noteq> i2
      \<and> fmlookup (endpoints N) i1 = Some p1 \<and> fmlookup (endpoints N) i2 = Some p2"
  then have "table_ok n t" by (auto intro: table_ok_run table_ok_NewNetwork)
  moreover from h have "N = nets t ! n" unfolding deref_Some by blast
  ultimately show "\<exists>E1 E2. deref (eps t) p1 = Some E1 \<and> deref (eps t) p2 = Some E2
                  \<and> ep_id E1 \<noteq> ep_id E2"
    using h unfolding table_ok_iff deref_Some by metis
qed

theorem uniqueness_witness:
  "New env_ok st_init = (0, st_ctrl)
   \<and> st_three = run_NewNetworks env_ok 0
        [(key_order, ''bridge'', ''net1'', []), (key_order, ''bridge'', ''net2'', []), (key_order, ''bridge'', ''net3'', [])]
        st_ctrl
   \<and> fmlookup (networks (ctrls st_three ! 0)) ''a'' = Some 0
   \<and> fmlookup (networks (ctrls st_three ! 0)) ''aa'' = Some 1
   \<and> (\<exists>N1 N2. deref (nets st_three) 0 = Some N1 \<and> deref (nets st_three) 1 = Some N2
                \<and> n_name N1 \<noteq> n_name N2)
   \<and> NewNetwork env_ok key_order 0 ''bridge'' ''net1'' [] st_ctrl = (Return (Inr 0), st_one)
   \<and> st_eps = run_CreateEndpoints env_ok 0
        [(''ep1'', ''/ns/1'', []), (''ep2'', ''/ns/2'', []), (''ep3'', ''/ns/3'', [])]
        st_one
   \<and> fmlookup (endpoints (nets st_eps ! 0)) ''aa'' = Some 0
   \<and> fmlookup (endpoints (nets st_eps ! 0)) ''aaa'' = Some 1
   \<and> (\<exists>E1 E2. deref (eps st_eps) 0 = Some E1 \<and> deref (eps st_eps) 1 = Some E2
                \<and> ep_id E1 \<noteq> ep_id E2)"
proof -
  have a1: "New env_ok st_init = (0, st_ctrl)" by code_simp
  have a2: "deref (ctrls st_three) 0 = Some (ctrls st_three ! 0)" by code_simp
  have a3: "''a'' \<noteq> ''aa''" by simp
  have a4: "fmlookup (networks (ctrls st_three ! 0)) ''a'' = Some 0" by code_simp
  have a5: "fmlookup (networks (ctrls st_three ! 0)) ''aa'' = Some 1" by code_simp
  have b1: "NewNetwork env_ok key_order 0 ''bridge'' ''net1'' [] st_ctrl = (Return (Inr 0), st_one)"
    by code_simp
  have b2: "deref (nets st_eps) 0 = Some (nets st_eps ! 0)" by code_simp
  have b3: "''aa'' \<noteq> ''aaa''" by simp
  have b4: "fmlookup (endpoints (nets st_eps ! 0)) ''aa'' = Some 0" by code_simp
  have b5: "fmlookup (endpoints (nets st_eps ! 0)) ''aaa'' = Some 1" by code_simp
  from a1 st_three_def a2 a3 a4 a5
  have A: "New env_ok st_init = (0, st_ctrl) \<and> st_three = run_NewNetworks env_ok 0
        [(key_order, ''bridge'', ''net1'', []), (key_order, ''bridge'', ''net2'', []), (key_order, ''bridge'', ''net3'', [])]
        st_ctrl
      \<and> deref (ctrls st_three) 0 = Some (ctrls st_three ! 0) \<and> ''a'' \<noteq> ''aa''
      \<and> fmlookup (networks (ctrls st_three ! 0)) ''a'' = Some 0
      \<and> fmlookup (networks (ctrls st_three ! 0)) ''aa'' = Some 1"
    by blast
  from b1 st_eps_def b2 b3 b4 b5
  have B: "NewNetwork env_ok key_order 0 ''bridge'' ''net1'' [] st_ctrl = (Return (Inr 0), st_one)
      \<and> st_eps = run_CreateEndpoints env_ok 0
        [(''ep1'', ''/ns/1'', []), (''ep2'', ''/ns/2'', []), (''ep3'', ''/ns/3'', [])]
        st_one
      \<and> deref (nets st_eps) 0 = Some (nets st_eps ! 0) \<and> ''aa'' \<noteq> ''aaa''
      \<and> fmlookup (endpoints (nets st_eps ! 0)) ''aa'' = Some 0
      \<and> fmlookup (endpoints (nets st_eps ! 0)) ''aaa'' = Some 1"
    by blast
  note n = uniqueness [THEN conjunct1, rule_format, OF A]
  note e = uniqueness [THEN conjunct2, rule_format, OF B]
  from A B n e show ?thesis by blast
qed

subsection \<open>Guarded deletion\<close>

lemma Endpoint_Delete_success:
  assumes "Endpoint_Delete e ep s = (Return None, s')"
  shows "ep < length (eps s) \<and> network (eps s ! ep) < length (nets s)
         \<and> ctrls s' = ctrls s \<and> eps s' = eps s
         \<and> nets s' = (nets s)[network (eps s ! ep) := (nets s ! network (eps s ! ep))
               \<lparr>endpoints := fmdrop (ep_id (eps s ! ep))
                               (endpoints (nets s ! network (eps s ! ep)))\<rparr>]"
  using assms
  by (auto simp: Endpoint_Delete_def Let_def deref_def log_call_simps set_endpoints_simps
           split: option.splits if_splits)

lemma fmap_empty_iff: "m = fmempty \<longleftrightarrow> (\<forall>k. fmlookup m k = None)"
  by (auto intro: fmap_ext)

lemma delete_endpoints_empties:
  assumes "delete_endpoints e es s = (True, s1)"
    and "table_ok n s"
    and "\<forall>k r. fmlookup (endpoints (nets s ! n)) k = Some r \<longrightarrow> r \<in> set es"
  shows "endpoints (nets s1 ! n) = fmempty \<and> n < length (nets s1) \<and> ctrls s1 = ctrls s
         \<and> ctrlr (nets s1 ! n) = ctrlr (nets s ! n) \<and> n_id (nets s1 ! n) = n_id (nets s ! n)
         \<and> driver (nets s1 ! n) = driver (nets s ! n)"
  using assms
proof (induction es arbitrary: s)
  case Nil
  then show ?case by (simp add: fmap_empty_iff table_ok_iff)
next
  case (Cons ep es)
  let ?E = "eps s ! ep"
  let ?m = "network ?E"
  from Cons.prems(1) obtain s' where
    del: "Endpoint_Delete e ep s = (Return None, s')" and rest: "delete_endpoints e es s' = (True, s1)"
    by (auto split: prod.splits outcome.splits option.splits)
  from Cons.prems(2) have n: "n < length (nets s)"
    and old: "\<And>k r. fmlookup (endpoints (nets s ! n)) k = Some r \<Longrightarrow>
               r < length (eps s) \<and> ep_id (eps s ! r) = k \<and> network (eps s ! r) = n"
    unfolding table_ok_iff by blast+
  from Endpoint_Delete_success [OF del] have
    m: "?m < length (nets s)" and c: "ctrls s' = ctrls s" and h: "eps s' = eps s"
    and upd: "nets s' = (nets s)[?m := (nets s ! ?m)
               \<lparr>endpoints := fmdrop (ep_id ?E) (endpoints (nets s ! ?m))\<rparr>]"
    by blast+
  have n': "n < length (nets s')" using n by (simp add: upd)
  have fields: "ctrlr (nets s' ! n) = ctrlr (nets s ! n) \<and> n_id (nets s' ! n) = n_id (nets s ! n)
                \<and> driver (nets s' ! n) = driver (nets s ! n)"
    using n by (cases "?m = n") (simp_all add: upd)
  have sub: "fmlookup (endpoints (nets s ! n)) k = Some r \<and> r \<noteq> ep"
    if l: "fmlookup (endpoints (nets s' ! n)) k = Some r" for k r
  proof (cases "?m = n")
    case True
    with l n have "fmlookup (fmdrop (ep_id ?E) (endpoints (nets s ! n))) k = Some r"
      by (simp add: upd)
    then have k: "k \<noteq> ep_id ?E" and o: "fmlookup (endpoints (nets s ! n)) k = Some r"
      by (auto split: if_splits)
    from old [OF o] k have "r \<noteq> ep" by auto
    with o show ?thesis by simp
  next
    case False
    with l n have o: "fmlookup (endpoints (nets s ! n)) k = Some r" by (simp add: upd)
    from old [OF o] False have "r \<noteq> ep" by auto
    with o show ?thesis by simp
  qed
  have ok': "table_ok n s'"
    unfolding table_ok_iff using n' old sub by (simp add: h) blast
  have cover: "\<forall>k r. fmlookup (endpoints (nets s' ! n)) k = Some r \<longrightarrow> r \<in> set es"
    using sub Cons.prems(3) by fastforce
  from Cons.IH [OF rest ok' cover] fields c show ?case by simp
qed

text \<open>
  Claim C2, for a network that is in its controller's table. When its endpoint table is
  not empty, \<open>Network.Delete\<close> returns \<open>ActiveEndpointsError\<close> and changes nothing. When its
  endpoint table is in order and \<open>Delete\<close> has returned nil on every endpoint of the
  snapshot that \<open>Endpoints\<close> gives, the endpoint table is empty and \<open>Network.Delete\<close> returns
  nil, provided the network has a driver and the driver's \<open>DeleteNetwork\<close> returns nil.
\<close>

theorem guarded_deletion:
  assumes "deref (nets s) n = Some N"
    and "deref (ctrls s) (ctrlr N) = Some C"
    and "fmlookup (networks C) (n_id N) = Some x"
  shows "(endpoints N \<noteq> fmempty \<longrightarrow>
            Network_Delete e n s
              = (Return (Some (ActiveEndpointsError (n_name N) (n_id N))), s))
       \<and> (table_ok n s \<and> Endpoints rank n s = Return es
            \<and> delete_endpoints e es s = (True, s1) \<and> driver N = Some d
            \<and> drv_error e d (DeleteNetworkCall (n_id N))
                  (set_networks (ctrlr N) (fmdrop (n_id N) (networks C)) s1) = None
          \<longrightarrow> Endpoints rank' n s1 = Return []
              \<and> fst (Network_Delete e n s1) = Return None)"
proof -
  have A: "Network_Delete e n s
             = (Return (Some (ActiveEndpointsError (n_name N) (n_id N))), s)"
    if "endpoints N \<noteq> fmempty"
    using assms that by (simp add: Network_Delete_def len_tbl_0)
  have B: "Endpoints rank' n s1 = Return [] \<and> fst (Network_Delete e n s1) = Return None"
    if h: "table_ok n s \<and> Endpoints rank n s = Return es
            \<and> delete_endpoints e es s = (True, s1) \<and> driver N = Some d
            \<and> drv_error e d (DeleteNetworkCall (n_id N))
                  (set_networks (ctrlr N) (fmdrop (n_id N) (networks C)) s1) = None"
  proof -
    from assms(1) have N: "N = nets s ! n" and n: "n < length (nets s)"
      by (simp_all add: deref_Some)
    from h assms(1) have es: "es = range_tbl rank (endpoints (nets s ! n))"
      by (simp add: Endpoints_def N)
    have cover: "\<forall>k r. fmlookup (endpoints (nets s ! n)) k = Some r \<longrightarrow> r \<in> set es"
      by (auto simp: es set_range_tbl)
    from h have del: "delete_endpoints e es s = (True, s1)" and ok: "table_ok n s"
      by blast+
    from delete_endpoints_empties [OF del ok cover] have
      emp: "endpoints (nets s1 ! n) = fmempty" and n1: "n < length (nets s1)"
      and c: "ctrls s1 = ctrls s" and f: "ctrlr (nets s1 ! n) = ctrlr N"
        "n_id (nets s1 ! n) = n_id N" "driver (nets s1 ! n) = driver N"
      by (simp_all add: N)
    have "set (range_tbl rank' (fmempty :: (UUID, eref) fmap)) = {}"
      by (simp add: set_range_tbl)
    then have r0: "range_tbl rank' (fmempty :: (UUID, eref) fmap) = []"
      by simp
    from n1 emp have a: "Endpoints rank' n s1 = Return []"
      by (simp add: Endpoints_def deref_def r0)
    from h assms(2,3) n1 emp c f have b: "fst (Network_Delete e n s1) = Return None"
      by (simp add: Network_Delete_def deref_def len_tbl_0 Let_def)
    from a b show ?thesis by simp
  qed
  from A B show ?thesis by blast
qed

theorem guarded_deletion_witness:
  "fmlookup (networks (ctrls st_eps ! 0)) ''a'' = Some 0
   \<and> endpoints (nets st_eps ! 0) \<noteq> fmempty
   \<and> Network_Delete env_ok 0 st_eps
       = (Return (Some (ActiveEndpointsError ''net1'' ''a'')), st_eps)
   \<and> table_ok 0 st_eps
   \<and> Endpoints key_order 0 st_eps = Return [0, 1, 2]
   \<and> fst (delete_endpoints env_ok [0, 1, 2] st_eps)
   \<and> Endpoints last_key_first 0 (snd (delete_endpoints env_ok [0, 1, 2] st_eps)) = Return []
   \<and> fst (Network_Delete env_ok 0 (snd (delete_endpoints env_ok [0, 1, 2] st_eps)))
       = Return None"
proof -
  let ?N = "nets st_eps ! 0" and ?C = "ctrls st_eps ! 0"
  let ?s1 = "snd (delete_endpoints env_ok [0, 1, 2] st_eps)"
  have f: "n_id ?N = ''a''" "n_name ?N = ''net1''" "ctrlr ?N = 0" by code_simp+
  have h1: "deref (nets st_eps) 0 = Some ?N" by code_simp
  have h2: "deref (ctrls st_eps) (ctrlr ?N) = Some ?C" by code_simp
  have h3: "fmlookup (networks ?C) (n_id ?N) = Some 0" by code_simp
  have "fmlookup (endpoints ?N) ''aa'' = Some 0" by code_simp
  then have ne: "endpoints ?N \<noteq> fmempty" by auto
  have ok: "table_ok 0 st_eps" by code_simp
  have snap: "Endpoints key_order 0 st_eps = Return [0, 1, 2]" by code_simp
  have all: "fst (delete_endpoints env_ok [0, 1, 2] st_eps)" by code_simp
  then have del: "delete_endpoints env_ok [0, 1, 2] st_eps = (True, ?s1)"
    by (simp add: prod_eq_iff)
  have drv: "driver ?N = Some 0" by code_simp
  have succeeds: "drv_error env_ok 0 (DeleteNetworkCall (n_id ?N))
                    (set_networks (ctrlr ?N) (fmdrop (n_id ?N) (networks ?C)) ?s1) = None"
    by (simp add: env_ok_def)
  note t = guarded_deletion [OF h1 h2 h3, where e = env_ok and rank = key_order
      and es = "[0, 1, 2]" and ?s1.0 = ?s1 and d = 0 and rank' = last_key_first]
  note a = t [THEN conjunct1, rule_format, OF ne, unfolded f]
  from ok snap del drv succeeds
  have "table_ok 0 st_eps \<and> Endpoints key_order 0 st_eps = Return [0, 1, 2]
        \<and> delete_endpoints env_ok [0, 1, 2] st_eps = (True, ?s1) \<and> driver ?N = Some 0
        \<and> drv_error env_ok 0 (DeleteNetworkCall (n_id ?N))
             (set_networks (ctrlr ?N) (fmdrop (n_id ?N) (networks ?C)) ?s1) = None"
    by blast
  note b = t [THEN conjunct2, rule_format, OF this]
  from h3 [unfolded f] ne a ok snap all b show ?thesis by blast
qed

text \<open>
  The claim C2 as it is written is about every network with an endpoint. A network that
  has been deleted can still be given an endpoint, since \<open>CreateEndpoint\<close> does not look at
  the controller's table; \<open>Delete\<close> on it then fails on the first check, with
  \<open>UnknownNetworkError\<close>.
\<close>

theorem deleted_network_counterexample:
  "Endpoints key_order 0
     (snd (CreateEndpoint env_ok 0 ''ep1'' ''/ns/path'' []
        (snd (Network_Delete env_ok 0
           (snd (NewNetwork env_ok key_order 0 ''bridge'' ''net1'' [] (snd (New env_ok st_init))))))))
     = Return [0]
   \<and> fst (Network_Delete env_ok 0
     (snd (CreateEndpoint env_ok 0 ''ep1'' ''/ns/path'' []
        (snd (Network_Delete env_ok 0
           (snd (NewNetwork env_ok key_order 0 ''bridge'' ''net1'' [] (snd (New env_ok st_init)))))))))
     = Return (Some (UnknownNetworkError ''net1'' ''a''))"
  by code_simp

end
